theory Spec2Isabelle
  imports Main "HOL-Library.Product_Lexorder" "HOL-Library.Multiset"
begin

section \<open>Strings and the two regular expressions of the resolver\<close>

text \<open>
  A Python \<open>str\<close> is modelled as a \<open>string\<close>: one \<open>char\<close> per code point, for the
  code points 0 to 255. On that range \<open>\s\<close> and \<open>str.strip()\<close> accept the code points
  9 to 13, 28 to 32, 133 and 160, and \<open>\d\<close> accepts the ten ASCII digits.
\<close>

definition is_space :: "char \<Rightarrow> bool" where
  "is_space c = (let n = (of_char c :: nat) in
     (9 \<le> n \<and> n \<le> 13) \<or> (28 \<le> n \<and> n \<le> 32) \<or> n = 133 \<or> n = 160)"

definition is_digit :: "char \<Rightarrow> bool" where
  "is_digit c = (let n = (of_char c :: nat) in 48 \<le> n \<and> n \<le> 57)"

text \<open>\<open>str.strip()\<close> with no argument.\<close>

definition strip :: "string \<Rightarrow> string" where
  "strip s = rev (dropWhile is_space (rev (dropWhile is_space s)))"

text \<open>
  The pattern \<open>\{(\d+),(\d+)\}\<close> tried at the head of a string. Each \<open>\d+\<close> is greedy and
  the character after a maximal run of digits is no digit, so giving a digit back never
  helps: there is at most one way to match. The result is the two groups and the text
  after the match.
\<close>

definition match_token :: "string \<Rightarrow> (string \<times> string \<times> string) option" where
  "match_token s =
     (case s of
        [] \<Rightarrow> None
      | c # s1 \<Rightarrow>
          if c \<noteq> CHR ''{'' then None
          else let page_id = takeWhile is_digit s1; s2 = dropWhile is_digit s1 in
            if page_id = [] then None
            else (case s2 of
                [] \<Rightarrow> None
              | c2 # s3 \<Rightarrow>
                  if c2 \<noteq> CHR '','' then None
                  else let t_id = takeWhile is_digit s3; s4 = dropWhile is_digit s3 in
                    if t_id = [] then None
                    else (case s4 of
                        [] \<Rightarrow> None
                      | c3 # s5 \<Rightarrow> if c3 = CHR ''}'' then Some (page_id, t_id, s5) else None)))"

text \<open>\<open>match.group(0)\<close>: the text of a token with the given groups.\<close>

definition group0 :: "string \<Rightarrow> string \<Rightarrow> string" where
  "group0 page_id t_id = ''{'' @ page_id @ '','' @ t_id @ ''}''"

text \<open>Whether the pattern matches anywhere in the text (\<open>pattern.search\<close>).\<close>

fun has_token :: "string \<Rightarrow> bool" where
  "has_token [] = False"
| "has_token (c # cs) = (case match_token (c # cs) of Some m \<Rightarrow> True | None \<Rightarrow> has_token cs)"

text \<open>
  The pattern \<open>\s*\([^)]*\)\<close> tried at the head of a string: the whitespace run, an
  opening parenthesis, everything up to the first closing parenthesis. Again backtracking
  finds nothing that the greedy match misses. The result is the text after the match.
\<close>

definition match_paren :: "string \<Rightarrow> string option" where
  "match_paren s =
     (case dropWhile is_space s of
        [] \<Rightarrow> None
      | c # s1 \<Rightarrow>
          if c \<noteq> CHR ''('' then None
          else (case dropWhile (\<lambda>x. x \<noteq> CHR '')'') s1 of
              [] \<Rightarrow> None
            | _ # s2 \<Rightarrow> Some s2))"

lemma match_token_sound:
  assumes "match_token s = Some (p, t, r)"
  shows "s = group0 p t @ r \<and> p \<noteq> [] \<and> t \<noteq> [] \<and>
    (\<forall>c\<in>set p. is_digit c) \<and> (\<forall>c\<in>set t. is_digit c)"
proof -
  from assms obtain s1 where s: "s = CHR ''{'' # s1"
    by (cases s) (simp_all add: match_token_def split: if_splits)
  define s2 where "s2 = dropWhile is_digit s1"
  define pg where "pg = takeWhile is_digit s1"
  have a1: "(if pg = [] then None
             else (case s2 of [] \<Rightarrow> None
                   | c2 # s3 \<Rightarrow>
                       if c2 \<noteq> CHR '','' then None
                       else let t_id = takeWhile is_digit s3; s4 = dropWhile is_digit s3 in
                         if t_id = [] then None
                         else (case s4 of [] \<Rightarrow> None
                               | c3 # s5 \<Rightarrow>
                                   if c3 = CHR ''}'' then Some (pg, t_id, s5) else None)))
            = Some (p, t, r)"
    using assms unfolding s match_token_def s2_def pg_def by (simp add: Let_def)
  then have pg: "pg \<noteq> []" by (simp split: if_splits)
  with a1 obtain s3 where s2: "s2 = CHR '','' # s3"
    by (cases s2) (simp_all split: if_splits)
  define s4 where "s4 = dropWhile is_digit s3"
  define tt where "tt = takeWhile is_digit s3"
  have a2: "(if tt = [] then None
             else (case s4 of [] \<Rightarrow> None
                   | c3 # s5 \<Rightarrow>
                       if c3 = CHR ''}'' then Some (pg, tt, s5) else None))
            = Some (p, t, r)"
    using a1 pg unfolding s2 s4_def tt_def by (simp add: Let_def)
  then have tt: "tt \<noteq> []" by (simp split: if_splits)
  with a2 obtain s5 where s4: "s4 = CHR ''}'' # s5"
    by (cases s4) (simp_all split: if_splits)
  from a2 tt s4 have res: "p = pg" "t = tt" "r = s5" by simp_all
  have "s1 = pg @ s2" unfolding pg_def s2_def by simp
  moreover have "s3 = tt @ s4" unfolding tt_def s4_def by simp
  ultimately have "s = group0 p t @ r"
    unfolding s s2 s4 res group0_def by simp
  moreover have "\<forall>c\<in>set pg. is_digit c" unfolding pg_def by (auto dest: set_takeWhileD)
  moreover have "\<forall>c\<in>set tt. is_digit c" unfolding tt_def by (auto dest: set_takeWhileD)
  ultimately show ?thesis using pg tt res by simp
qed

lemma match_token_shorter:
  assumes "match_token s = Some (p, t, r)"
  shows "length r < length s"
proof -
  from match_token_sound [OF assms] have "s = group0 p t @ r" by blast
  then show ?thesis by (simp add: group0_def)
qed

lemma match_paren_shorter:
  assumes "match_paren s = Some r"
  shows "length r < length s"
proof -
  define s0 where "s0 = dropWhile is_space s"
  have a1: "(case s0 of [] \<Rightarrow> None
             | c # s1 \<Rightarrow>
                 if c \<noteq> CHR ''('' then None
                 else (case dropWhile (\<lambda>x. x \<noteq> CHR '')'') s1 of
                     [] \<Rightarrow> None
                   | _ # s2 \<Rightarrow> Some s2)) = Some r"
    using assms unfolding match_paren_def s0_def .
  then obtain s1 where s0: "s0 = CHR ''('' # s1"
    by (cases s0) (simp_all split: if_splits)
  define s3 where "s3 = dropWhile (\<lambda>x. x \<noteq> CHR '')'') s1"
  have a2: "(case s3 of [] \<Rightarrow> None | _ # s2 \<Rightarrow> Some s2) = Some r"
    using a1 unfolding s0 s3_def by simp
  then obtain c where s3: "s3 = c # r" by (cases s3) simp_all
  have "length s3 \<le> length s1" unfolding s3_def by (rule length_dropWhile_le)
  moreover have "length s0 \<le> length s" unfolding s0_def by (rule length_dropWhile_le)
  ultimately show ?thesis using s0 s3 by simp
qed

text \<open>\<open>re.sub(r'\s*\([^)]*\)', '', text)\<close>: left to right, each match removed.\<close>

function remove_parens :: "string \<Rightarrow> string" where
  "remove_parens [] = []"
| "remove_parens (c # cs) =
     (case match_paren (c # cs) of
        Some rest \<Rightarrow> remove_parens rest
      | None \<Rightarrow> c # remove_parens cs)"
  by pat_completeness auto
termination
proof (relation "measure length")
  show "wf (measure length)" by simp
next
  fix c cs rest
  assume "match_paren (c # cs) = Some rest"
  then have "length rest < length (c # cs)" by (rule match_paren_shorter)
  then show "(rest, c # cs) \<in> measure length" by simp
next
  fix c :: char and cs :: string
  show "(cs, c # cs) \<in> measure length" by simp
qed

text \<open>Line 104 of the resolver: the annotations removed, the result trimmed.\<close>

definition strip_parentheticals :: "string \<Rightarrow> string" where
  "strip_parentheticals s = strip (remove_parens s)"

section \<open>The placeholder resolver\<close>

text \<open>
  \<open>pattern.sub(replacer, text)\<close>: the text is scanned from the left; where the pattern
  matches, the callback gives the replacement and the scan goes on after the match; elsewhere
  one character is copied. The callback changes a state, which is threaded through.
\<close>

function pattern_sub ::
  "(string \<times> string \<Rightarrow> 'st \<Rightarrow> string \<times> 'st) \<Rightarrow> string \<Rightarrow> 'st \<Rightarrow> string \<times> 'st" where
  "pattern_sub repl [] st = ([], st)"
| "pattern_sub repl (c # cs) st =
     (case match_token (c # cs) of
        Some (page_id, t_id, rest) \<Rightarrow>
          (case repl (page_id, t_id) st of
             (r, st1) \<Rightarrow> (case pattern_sub repl rest st1 of (out, st2) \<Rightarrow> (r @ out, st2)))
      | None \<Rightarrow> (case pattern_sub repl cs st of (out, st1) \<Rightarrow> (c # out, st1)))"
  by pat_completeness auto
termination
proof (relation "measure (\<lambda>(repl, s, st). length s)")
  show "wf (measure (\<lambda>(repl :: string \<times> string \<Rightarrow> 'st \<Rightarrow> string \<times> 'st, s :: string, st :: 'st). length s))"
    by simp
next
  fix repl :: "string \<times> string \<Rightarrow> 'st \<Rightarrow> string \<times> 'st"
  fix c cs st x2 page_id y t_id rest x r st1
  assume "match_token (c # cs) = Some x2" "(page_id, y) = x2" "(t_id, rest) = y"
  then have "match_token (c # cs) = Some (page_id, t_id, rest)" by simp
  then have "length rest < length (c # cs)" by (rule match_token_shorter)
  then show "((repl, rest, st1), (repl, c # cs, st)) \<in> measure (\<lambda>(repl, s, st). length s)"
    by simp
next
  fix repl :: "string \<times> string \<Rightarrow> 'st \<Rightarrow> string \<times> 'st"
  fix c :: char and cs :: string and st :: 'st
  show "((repl, cs, st), (repl, c # cs, st)) \<in> measure (\<lambda>(repl, s, st). length s)"
    by simp
qed

text \<open>
  What the resolver calls on the logger, in order. The state of one top-level call is the
  localization map (a dictionary passed by reference), the list \<open>processed_keys\<close> (created
  by the top-level call, shared by every nested call) and the log.
\<close>

datatype event =
    Circular string
  | Missing string
  | Depth nat string string
  | MaxDepth string

record rstate =
  name_map :: "string \<rightharpoonup> string"
  processed_keys :: "string list"
  log :: "event list"

definition emit :: "event \<Rightarrow> rstate \<Rightarrow> rstate" where
  "emit e st = st\<lparr>log := log st @ [e]\<rparr>"

text \<open>
  The closure \<open>replacer\<close>. Its first argument stands for the nested call
  \<open>resolve_placeholders(replacement, name_map, processed_keys, max_depth - 1)\<close>.
  \<open>processed_keys.pop()\<close> is \<open>butlast\<close>: it is only called after an \<open>append\<close>, and the
  nested call leaves the list as it found it (lemma \<open>resolve_placeholders_frame\<close>), so the
  list is never empty there.
\<close>

definition replacer ::
  "(string \<Rightarrow> rstate \<Rightarrow> string \<times> rstate) \<Rightarrow> string \<times> string \<Rightarrow> rstate \<Rightarrow> string \<times> rstate" where
  "replacer nested m st =
     (case m of (page_id, t_id) \<Rightarrow>
        let key = page_id @ ''_'' @ t_id in
        if key \<in> set (processed_keys st) then (group0 page_id t_id, emit (Circular key) st)
        else
          let st1 = st\<lparr>processed_keys := processed_keys st @ [key]\<rparr>;
              replacement = (case name_map st1 key of Some v \<Rightarrow> v | None \<Rightarrow> ''Unknown'')
          in
            if replacement = ''Unknown'' then
              (let st2 = emit (Missing key) st1
               in (''Unknown'', st2\<lparr>processed_keys := butlast (processed_keys st2)\<rparr>))
            else
              (case nested replacement st1 of
                 (r, st2) \<Rightarrow> (r, st2\<lparr>processed_keys := butlast (processed_keys st2)\<rparr>)))"

text \<open>
  The loop \<open>for depth in range(max_depth): ... else: ...\<close>. The first argument counts the
  passes left, the second is \<open>depth\<close>. The \<open>else\<close> branch runs when the range is used up
  without a \<open>break\<close>.
\<close>

fun for_loop ::
  "nat \<Rightarrow> nat \<Rightarrow> (string \<Rightarrow> rstate \<Rightarrow> string \<times> rstate) \<Rightarrow> string \<Rightarrow> string \<Rightarrow> rstate
     \<Rightarrow> string \<times> rstate" where
  "for_loop 0 depth pass text current_text st = (current_text, emit (MaxDepth text) st)"
| "for_loop (Suc n) depth pass text current_text st =
     (case pass current_text st of
        (new_text, st1) \<Rightarrow>
          if new_text = current_text then (current_text, st1)
          else for_loop n (Suc depth) pass text new_text
                 (emit (Depth (Suc depth) current_text new_text) st1))"

definition resolve_body ::
  "(string \<Rightarrow> rstate \<Rightarrow> string \<times> rstate) \<Rightarrow> nat \<Rightarrow> string \<Rightarrow> rstate \<Rightarrow> string \<times> rstate" where
  "resolve_body nested max_depth text st =
     (case for_loop max_depth 0 (pattern_sub (replacer nested)) text text st of
        (current_text, st1) \<Rightarrow> (strip_parentheticals current_text, st1))"

text \<open>
  \<open>resolve_placeholders(text, name_map, processed_keys, max_depth)\<close>. The nested call gets
  \<open>max_depth - 1\<close>; with \<open>max_depth = 0\<close> the range is empty, the callback is never called
  and no nested call is made. \<open>max_depth\<close> starts at 10 and never goes below 0.
\<close>

fun resolve_placeholders :: "string \<Rightarrow> rstate \<Rightarrow> nat \<Rightarrow> string \<times> rstate" where
  "resolve_placeholders text st 0 = resolve_body (\<lambda>t s. (t, s)) 0 text st"
| "resolve_placeholders text st (Suc d) =
     resolve_body (\<lambda>t s. resolve_placeholders t s d) (Suc d) text st"

text \<open>A call as the extractors make it: \<open>resolve_placeholders(text, name_map)\<close>.\<close>

definition initial :: "(string \<rightharpoonup> string) \<Rightarrow> rstate" where
  "initial m = \<lparr>name_map = m, processed_keys = [], log = []\<rparr>"

definition resolve_run :: "string \<Rightarrow> (string \<rightharpoonup> string) \<Rightarrow> string \<times> rstate" where
  "resolve_run text m = resolve_placeholders text (initial m) 10"

definition resolve :: "string \<Rightarrow> (string \<rightharpoonup> string) \<Rightarrow> string" where
  "resolve text m = fst (resolve_run text m)"

section \<open>Documents\<close>

text \<open>
  An element of a parsed document, as \<open>xml.etree.ElementTree\<close> gives it: the tag, the
  attributes, the text before the first child (\<open>None\<close> when there is none) and the
  children in document order.
\<close>

datatype element =
  Element (el_tag: string) (el_attrib: "(string \<times> string) list") (el_text: "string option")
    (el_children: "element list")

text \<open>\<open>e.get(k)\<close> and \<open>e.get(k, default)\<close>.\<close>

definition get_attr :: "element \<Rightarrow> string \<Rightarrow> string option" where
  "get_attr e k = map_of (el_attrib e) k"

definition get_attr_default :: "element \<Rightarrow> string \<Rightarrow> string \<Rightarrow> string" where
  "get_attr_default e k d = (case get_attr e k of Some v \<Rightarrow> v | None \<Rightarrow> d)"

text \<open>The elements below an element, in document order; the element itself is not one.\<close>

fun descendants :: "element \<Rightarrow> element list" where
  "descendants (Element t a x cs) = concat (map (\<lambda>c. c # descendants c) cs)"

text \<open>\<open>e.findall('.//tag')\<close>, \<open>e.find('.//tag')\<close> and \<open>e.find('tag')\<close>.\<close>

definition findall_desc :: "string \<Rightarrow> element \<Rightarrow> element list" where
  "findall_desc t e = filter (\<lambda>c. el_tag c = t) (descendants e)"

definition find_desc :: "string \<Rightarrow> element \<Rightarrow> element option" where
  "find_desc t e = (case findall_desc t e of [] \<Rightarrow> None | x # _ \<Rightarrow> Some x)"

definition find_child :: "string \<Rightarrow> element \<Rightarrow> element option" where
  "find_child t e =
     (case filter (\<lambda>c. el_tag c = t) (el_children e) of [] \<Rightarrow> None | x # _ \<Rightarrow> Some x)"

section \<open>The localization map loaders\<close>

text \<open>
  The three scripts each have a \<open>load_localization\<close>; they differ in the value stored
  for an entry. The loops are shared here, with the stored value as a function of \<open>t.text\<close>.
  A file that does not parse is \<open>None\<close>: the loader catches the exception and returns the
  empty dictionary.
\<close>

definition load_entries ::
  "(string option \<Rightarrow> 'v) \<Rightarrow> string \<Rightarrow> (string \<rightharpoonup> 'v) \<Rightarrow> element list \<Rightarrow> (string \<rightharpoonup> 'v)" where
  "load_entries payload page_id nmap ts =
     foldl (\<lambda>m t.
        case get_attr t ''id'' of
          None \<Rightarrow> m
        | Some t_id \<Rightarrow>
            if t_id = [] then m else m(page_id @ ''_'' @ t_id \<mapsto> payload (el_text t)))
       nmap ts"

definition load_pages ::
  "(string option \<Rightarrow> 'v) \<Rightarrow> (string \<rightharpoonup> 'v) \<Rightarrow> element list \<Rightarrow> (string \<rightharpoonup> 'v)" where
  "load_pages payload nmap pages =
     foldl (\<lambda>m page.
        case get_attr page ''id'' of
          None \<Rightarrow> m
        | Some page_id \<Rightarrow>
            if page_id = [] then m
            else load_entries payload page_id m (findall_desc ''t'' page))
       nmap pages"

definition load_localization_with ::
  "(string option \<Rightarrow> 'v) \<Rightarrow> element option \<Rightarrow> (string \<rightharpoonup> 'v)" where
  "load_localization_with payload file =
     (case file of
        None \<Rightarrow> Map.empty
      | Some root \<Rightarrow> load_pages payload Map.empty (findall_desc ''page'' root))"

text \<open>\<open>get_factions_info.py\<close>: \<open>name_map[key] = t.text if t.text else ''\<close>.\<close>

definition text_or_empty :: "string option \<Rightarrow> string" where
  "text_or_empty x = (case x of None \<Rightarrow> [] | Some s \<Rightarrow> s)"

definition load_localization :: "element option \<Rightarrow> (string \<rightharpoonup> string)" where
  "load_localization = load_localization_with text_or_empty"

text \<open>\<open>map_get_names.py\<close>: \<open>name_map[key] = t.text.strip() if t.text else ''\<close>.\<close>

definition load_localization_names :: "element option \<Rightarrow> (string \<rightharpoonup> string)" where
  "load_localization_names = load_localization_with (\<lambda>x. strip (text_or_empty x))"

text \<open>
  \<open>wares_convert.py\<close>: \<open>name_map[key] = t.text\<close>. The value is \<open>None\<close> for an entry
  without text.
\<close>

definition load_localization_wares :: "element option \<Rightarrow> (string \<rightharpoonup> string option)" where
  "load_localization_wares = load_localization_with (\<lambda>x. x)"

text \<open>
  The bindings in the words of the specification: one for every page with an identifier
  and every entry below it with an identifier, in document order.
\<close>

definition t_entry :: "(string option \<Rightarrow> 'v) \<Rightarrow> string \<Rightarrow> element \<Rightarrow> (string \<times> 'v) list" where
  "t_entry payload page_id t =
     (case get_attr t ''id'' of
        None \<Rightarrow> []
      | Some t_id \<Rightarrow> if t_id = [] then [] else [(page_id @ ''_'' @ t_id, payload (el_text t))])"

definition page_entries :: "(string option \<Rightarrow> 'v) \<Rightarrow> element \<Rightarrow> (string \<times> 'v) list" where
  "page_entries payload page =
     (case get_attr page ''id'' of
        None \<Rightarrow> []
      | Some page_id \<Rightarrow>
          if page_id = [] then []
          else concat (map (t_entry payload page_id) (findall_desc ''t'' page)))"

definition entries :: "(string option \<Rightarrow> 'v) \<Rightarrow> element \<Rightarrow> (string \<times> 'v) list" where
  "entries payload root = concat (map (page_entries payload) (findall_desc ''page'' root))"

section \<open>Name references\<close>

text \<open>
  \<open>int(s)\<close> on a string: whitespace around (for \<open>int\<close> the code points 9 to 13, 32, 133
  and 160), a sign, decimal digits with single underscores between them. \<open>None\<close> stands
  for \<open>ValueError\<close>. The interpreter's limit on the number of digits is not modelled.
\<close>

definition is_int_space :: "char \<Rightarrow> bool" where
  "is_int_space c = (let n = (of_char c :: nat) in (9 \<le> n \<and> n \<le> 13) \<or> n = 32 \<or> n = 133 \<or> n = 160)"

definition strip_with :: "(char \<Rightarrow> bool) \<Rightarrow> string \<Rightarrow> string" where
  "strip_with f s = rev (dropWhile f (rev (dropWhile f s)))"

fun digits_us :: "string \<Rightarrow> bool" where
  "digits_us [] = False"
| "digits_us [c] = is_digit c"
| "digits_us (c # d # r) = (is_digit c \<and> (if d = CHR ''_'' then digits_us r else digits_us (d # r)))"

definition digit_value :: "char \<Rightarrow> nat" where
  "digit_value c = of_char c - 48"

definition nat_of_digits :: "string \<Rightarrow> nat" where
  "nat_of_digits s = foldl (\<lambda>a c. 10 * a + digit_value c) 0 s"

definition py_int :: "string \<Rightarrow> int option" where
  "py_int s =
     (let s1 = strip_with is_int_space s;
          neg = (case s1 of [] \<Rightarrow> False | c # _ \<Rightarrow> c = CHR ''-'');
          s2 = (case s1 of [] \<Rightarrow> [] | c # r \<Rightarrow> if c = CHR ''-'' \<or> c = CHR ''+'' then r else s1)
      in if digits_us s2
         then Some ((if neg then - 1 else 1) * int (nat_of_digits (filter (\<lambda>c. c \<noteq> CHR ''_'') s2)))
         else None)"

text \<open>The decimal text of an integer, as an f-string writes it.\<close>

function show_nat :: "nat \<Rightarrow> string" where
  "show_nat n =
     (if n < 10 then [''0123456789'' ! n]
      else show_nat (n div 10) @ [''0123456789'' ! (n mod 10)])"
  by pat_completeness auto
termination
  by (relation "measure id") simp_all

declare show_nat.simps [simp del]

definition show_int :: "int \<Rightarrow> string" where
  "show_int i = (if i < 0 then CHR ''-'' # show_nat (nat (- i)) else show_nat (nat i))"

text \<open>\<open>s.split(',')\<close>: the pieces between the separators, empty ones included.\<close>

fun split_on :: "char \<Rightarrow> string \<Rightarrow> string list" where
  "split_on sep [] = [[]]"
| "split_on sep (c # cs) =
     (if c = sep then [] # split_on sep cs
      else (case split_on sep cs of [] \<Rightarrow> [[c]] | w # ws \<Rightarrow> (c # w) # ws))"

text \<open>
  \<open>parse_name_reference\<close>, the same in all scripts: \<open>None\<close> for an absent or empty
  reference and wherever the \<open>try\<close> block raises (not two pieces, or a piece that is no
  integer).
\<close>

definition parse_name_reference :: "string option \<Rightarrow> string option" where
  "parse_name_reference name_ref =
     (case name_ref of
        None \<Rightarrow> None
      | Some s \<Rightarrow>
          if s = [] then None
          else (case map py_int (split_on CHR '','' (strip_with (\<lambda>c. c = CHR ''{'' \<or> c = CHR ''}'') s)) of
                  [Some page_id, Some t_id] \<Rightarrow> Some (show_int page_id @ ''_'' @ show_int t_id)
                | _ \<Rightarrow> None))"

section \<open>The map-sector extractor\<close>

text \<open>The parameter \<open>nmap\<close> of the extractors is the dictionary \<open>name_map\<close>.\<close>

text \<open>\<open>re.findall(r'\d+', macro)\<close>: the maximal runs of digits, from the left.\<close>

function findall_digits :: "string \<Rightarrow> string list" where
  "findall_digits [] = []"
| "findall_digits (c # cs) =
     (if is_digit c then takeWhile is_digit (c # cs) # findall_digits (dropWhile is_digit cs)
      else findall_digits cs)"
  by pat_completeness auto
termination
proof (relation "measure length")
  show "wf (measure (length :: string \<Rightarrow> nat))" by simp
next
  fix c :: char and cs :: string
  have "length (dropWhile is_digit cs) \<le> length cs" by (rule length_dropWhile_le)
  then show "(dropWhile is_digit cs, c # cs) \<in> measure length" by simp
next
  fix c :: char and cs :: string
  show "(cs, c # cs) \<in> measure length" by simp
qed

definition extract_cluster_sector :: "string \<Rightarrow> nat \<times> nat \<times> string" where
  "extract_cluster_sector macro =
     (case findall_digits macro of
        [] \<Rightarrow> (0, 0, ''unknown'')
      | [n0] \<Rightarrow> (nat_of_digits n0, 0, ''cluster'')
      | n0 # n1 # _ \<Rightarrow> (nat_of_digits n0, nat_of_digits n1, ''sector''))"

text \<open>
  An exclusion pattern is what \<open>re.match(pattern, macro)\<close> does with it: whether it
  matches at the start of the macro, or \<open>None\<close> when the pattern does not compile and
  \<open>re.error\<close> is raised. \<open>any(...)\<close> tries the patterns in order and stops at the
  first match.
\<close>

type_synonym pattern = "string \<Rightarrow> bool option"

fun any_match :: "pattern list \<Rightarrow> string \<Rightarrow> bool option" where
  "any_match [] macro = Some False"
| "any_match (p # ps) macro =
     (case p macro of
        None \<Rightarrow> None
      | Some b \<Rightarrow> if b then Some True else any_match ps macro)"

text \<open>The default patterns \<open>^timelines_map_\<close> and \<open>^demo_\<close> test for a prefix.\<close>

definition prefix_pattern :: "string \<Rightarrow> pattern" where
  "prefix_pattern pre macro = Some (take (length pre) macro = pre)"

definition DEFAULT_EXCLUDE_PATTERNS :: "pattern list" where
  "DEFAULT_EXCLUDE_PATTERNS = [prefix_pattern ''timelines_map_'', prefix_pattern ''demo_'']"

text \<open>
  What one turn of the loop over the datasets does: go on to the next dataset without a
  row, raise (the \<open>except\<close> around the file ends the file), or append a row. A row is
  \<open>(cluster_id, sector_id, entry_type, macro, name, source)\<close>.
\<close>

datatype 'a step = Skip | Raise | Emit 'a

type_synonym row = "nat \<times> nat \<times> string \<times> string \<times> string \<times> string"

definition lookup_name :: "(string \<rightharpoonup> string) \<Rightarrow> string \<Rightarrow> string" where
  "lookup_name nmap name_attr =
     (case parse_name_reference (Some name_attr) of
        None \<Rightarrow> ''Unknown''
      | Some name_ref \<Rightarrow>
          resolve (case nmap name_ref of Some v \<Rightarrow> v | None \<Rightarrow> ''Unknown'') nmap)"

definition dataset_row ::
  "(string \<rightharpoonup> string) \<Rightarrow> pattern list \<Rightarrow> string \<Rightarrow> element \<Rightarrow> row step" where
  "dataset_row nmap exclude_patterns source dataset =
     (case get_attr dataset ''macro'' of
        None \<Rightarrow> Skip
      | Some macro0 \<Rightarrow>
          if macro0 = [] then Skip
          else
            let macro = strip macro0 in
            (case any_match exclude_patterns macro of
               None \<Rightarrow> Raise
             | Some excluded \<Rightarrow>
                 if excluded then Skip
                 else
                   (case extract_cluster_sector macro of
                      (cluster_id, sector_id, entry_type) \<Rightarrow>
                        (case find_desc ''identification'' dataset of
                           None \<Rightarrow> Skip
                         | Some identification \<Rightarrow>
                             (case get_attr identification ''name'' of
                                None \<Rightarrow> Skip
                              | Some name_attr \<Rightarrow>
                                  if name_attr = [] then Skip
                                  else Emit (cluster_id, sector_id, entry_type, macro,
                                         lookup_name nmap (strip name_attr), source))))))"

fun dataset_rows ::
  "(string \<rightharpoonup> string) \<Rightarrow> pattern list \<Rightarrow> string \<Rightarrow> element list \<Rightarrow> row list" where
  "dataset_rows nmap exclude_patterns source [] = []"
| "dataset_rows nmap exclude_patterns source (d # ds) =
     (case dataset_row nmap exclude_patterns source d of
        Skip \<Rightarrow> dataset_rows nmap exclude_patterns source ds
      | Raise \<Rightarrow> []
      | Emit r \<Rightarrow> r # dataset_rows nmap exclude_patterns source ds)"

text \<open>
  The rows one file appends. A file that does not parse appends none; an exception in the
  loop keeps the rows appended before it.
\<close>

definition file_rows ::
  "(string \<rightharpoonup> string) \<Rightarrow> pattern list \<Rightarrow> string \<times> element option \<Rightarrow> row list" where
  "file_rows nmap exclude_patterns f =
     (case f of
        (source, None) \<Rightarrow> []
      | (source, Some root) \<Rightarrow>
          dataset_rows nmap exclude_patterns source (findall_desc ''dataset'' root))"

definition all_rows ::
  "(string \<times> element option) list \<Rightarrow> (string \<rightharpoonup> string) \<Rightarrow> pattern list \<Rightarrow> row list" where
  "all_rows mapdefaults_files nmap exclude_patterns =
     concat (map (file_rows nmap exclude_patterns) mapdefaults_files)"

text \<open>
  \<open>all_rows.sort(key=lambda x: (x[0], x[1]))\<close>: a stable sort on the pair, compared as
  Python compares tuples, first component first.
\<close>

definition sort_key_of :: "row \<Rightarrow> nat \<times> nat" where
  "sort_key_of r = (fst r, fst (snd r))"

definition sorted_rows ::
  "(string \<times> element option) list \<Rightarrow> (string \<rightharpoonup> string) \<Rightarrow> pattern list \<Rightarrow> row list" where
  "sorted_rows mapdefaults_files nmap exclude_patterns =
     sort_key sort_key_of (all_rows mapdefaults_files nmap exclude_patterns)"

definition csv_line :: "row \<Rightarrow> string list" where
  "csv_line r = (case r of (cluster_id, sector_id, entry_type, macro, name, source) \<Rightarrow>
     [macro, name, source, entry_type])"

text \<open>
  \<open>process_mapdefaults\<close>: the lines of the file it writes, the header first. When the
  output folder is missing and cannot be made (\<open>folder_ok\<close> false) nothing is written.
\<close>

definition process_mapdefaults ::
  "(string \<times> element option) list \<Rightarrow> (string \<rightharpoonup> string) \<Rightarrow> pattern list \<Rightarrow> bool
     \<Rightarrow> string list list option" where
  "process_mapdefaults mapdefaults_files nmap exclude_patterns folder_ok =
     (if \<not> folder_ok then None
      else Some ([''macro'', ''name'', ''source'', ''type'']
                 # map csv_line (sorted_rows mapdefaults_files nmap exclude_patterns)))"

section \<open>The ware extractor\<close>

definition VALID_TRANSPORT :: "string set" where
  "VALID_TRANSPORT = {''container'', ''liquid'', ''solid''}"

text \<open>\<open>s.split()\<close>: the words between runs of whitespace; the first argument is the word
  being read.\<close>

fun split_ws :: "string \<Rightarrow> string \<Rightarrow> string list" where
  "split_ws w [] = (if w = [] then [] else [w])"
| "split_ws w (c # cs) =
     (if is_space c then (if w = [] then split_ws [] cs else w # split_ws [] cs)
      else split_ws (w @ [c]) cs)"

text \<open>
  A line of the ware table. The name is what the dictionary of \<open>wares_convert.py\<close> holds,
  which may be \<open>None\<close> (written as an empty cell); \<open>w_bands\<close> are the seven cells
  \<open>avg\<close>, \<open>30% min\<close>, ..., \<open>70% max\<close>.
\<close>

record ware_row =
  w_name :: "string option"
  w_min :: string
  w_max :: string
  w_bands :: "string list"
  w_transport :: string
  w_source :: string

text \<open>
  One turn of the loop over the wares. \<open>calculate_price_ranges\<close> and the seven
  \<open>:.0f\<close> formats work on binary floating-point numbers; they are the parameter
  \<open>price_cells\<close>, which is \<open>None\<close> where \<open>float()\<close> raises \<open>ValueError\<close>.
\<close>

definition ware_step ::
  "(string \<rightharpoonup> string option) \<Rightarrow> (string \<Rightarrow> string \<Rightarrow> string list option) \<Rightarrow> string \<Rightarrow> element
     \<Rightarrow> ware_row step" where
  "ware_step nmap price_cells source ware =
     (if ''module'' \<in> set (split_ws [] (get_attr_default ware ''tags'' [])) then Skip
      else
        (case get_attr ware ''transport'' of
           None \<Rightarrow> Skip
         | Some transport \<Rightarrow>
             if transport \<notin> VALID_TRANSPORT then Skip
             else
               (case parse_name_reference (get_attr ware ''name'') of
                  None \<Rightarrow> Skip
                | Some name_ref \<Rightarrow>
                    (case find_child ''price'' ware of
                       None \<Rightarrow> Skip
                     | Some price \<Rightarrow>
                         let name = (case nmap name_ref of
                                       Some v \<Rightarrow> v
                                     | None \<Rightarrow> Some ''Unknown'')
                         in
                           (case get_attr price ''min'' of
                              None \<Rightarrow> Skip
                            | Some min_price \<Rightarrow>
                                (case get_attr price ''max'' of
                                   None \<Rightarrow> Skip
                                 | Some max_price \<Rightarrow>
                                     if min_price = [] \<or> max_price = [] then Skip
                                     else
                                       (case price_cells min_price max_price of
                                          None \<Rightarrow> Raise
                                        | Some cells \<Rightarrow>
                                            Emit \<lparr>w_name = name, w_min = min_price,
                                                  w_max = max_price, w_bands = cells,
                                                  w_transport = transport,
                                                  w_source = source\<rparr>)))))))"

text \<open>
  The rows written for the wares of one file, and whether an exception ended the loop.
  Nothing catches it in \<open>process_all_wares\<close>: the rows written so far stay in the file
  and no further file is read.
\<close>

fun ware_rows ::
  "(string \<rightharpoonup> string option) \<Rightarrow> (string \<Rightarrow> string \<Rightarrow> string list option) \<Rightarrow> string
     \<Rightarrow> element list \<Rightarrow> ware_row list \<times> bool" where
  "ware_rows nmap price_cells source [] = ([], False)"
| "ware_rows nmap price_cells source (w # ws) =
     (case ware_step nmap price_cells source w of
        Skip \<Rightarrow> ware_rows nmap price_cells source ws
      | Raise \<Rightarrow> ([], True)
      | Emit r \<Rightarrow>
          (case ware_rows nmap price_cells source ws of (rows, raised) \<Rightarrow> (r # rows, raised)))"

fun wares_of_files ::
  "(string \<rightharpoonup> string option) \<Rightarrow> (string \<Rightarrow> string \<Rightarrow> string list option)
     \<Rightarrow> (string \<times> element option) list \<Rightarrow> ware_row list \<times> bool" where
  "wares_of_files nmap price_cells [] = ([], False)"
| "wares_of_files nmap price_cells ((source, None) # fs) = ([], True)"
| "wares_of_files nmap price_cells ((source, Some root) # fs) =
     (case ware_rows nmap price_cells source (findall_desc ''ware'' root) of
        (rows, raised) \<Rightarrow>
          if raised then (rows, True)
          else (case wares_of_files nmap price_cells fs of
                  (rows', raised') \<Rightarrow> (rows @ rows', raised')))"

text \<open>
  \<open>process_all_wares\<close>: the rows written after the header, and whether the function
  ended by an exception; \<open>None\<close> when the output folder cannot be made and nothing is
  written.
\<close>

definition process_all_wares ::
  "(string \<times> element option) list \<Rightarrow> (string \<rightharpoonup> string option)
     \<Rightarrow> (string \<Rightarrow> string \<Rightarrow> string list option) \<Rightarrow> bool \<Rightarrow> (ware_row list \<times> bool) option" where
  "process_all_wares wares_files nmap price_cells folder_ok =
     (if \<not> folder_ok then None else Some (wares_of_files nmap price_cells wares_files))"

section \<open>Sample documents\<close>

text \<open>
  A \<open>mapdefaults.xml\<close> with a cluster, a dataset whose macro has no digit, a dataset
  with neither digits nor an identification element, and a sector.
\<close>

definition sample_identification :: "string \<Rightarrow> element" where
  "sample_identification name =
     Element ''properties'' [] None [Element ''identification'' [(''name'', name)] None []]"

definition sample_unknown_dataset :: element where
  "sample_unknown_dataset =
     Element ''dataset'' [(''macro'', ''abc'')] None [sample_identification ''{1,3}'']"

definition sample_bare_dataset :: element where
  "sample_bare_dataset = Element ''dataset'' [(''macro'', ''abd'')] None []"

definition sample_mapdefaults :: element where
  "sample_mapdefaults =
     Element ''defaults'' [] None
       [Element ''dataset'' [(''macro'', ''Cluster_02_macro'')] None [sample_identification ''{1,1}''],
        sample_unknown_dataset,
        sample_bare_dataset,
        Element ''dataset'' [(''macro'', ''Cluster_01_Sector002_macro'')] None
          [sample_identification ''{1,1}'']]"

definition sample_names :: "string \<rightharpoonup> string" where
  "sample_names = [''1_1'' \<mapsto> ''{1,2} (x)'', ''1_2'' \<mapsto> ''Hello'']"

text \<open>A language file with one page: an entry without text and an entry with text.\<close>

definition sample_language :: element where
  "sample_language =
     Element ''language'' [(''id'', ''44'')] None
       [Element ''page'' [(''id'', ''1'')] None
          [Element ''t'' [(''id'', ''1'')] None [],
           Element ''t'' [(''id'', ''2'')] (Some ''Hello'') []]]"

text \<open>A \<open>wares.xml\<close> with one ware, and a dictionary in which its name refers on.\<close>

definition sample_ware :: element where
  "sample_ware =
     Element ''ware'' [(''id'', ''energycells''), (''name'', ''{1,1}''), (''transport'', ''container'')]
       None [Element ''price'' [(''min'', ''10''), (''average'', ''16''), (''max'', ''22'')] None []]"

definition sample_wares :: element where
  "sample_wares = Element ''wares'' [] None [sample_ware]"

definition sample_ware_names :: "string \<rightharpoonup> string option" where
  "sample_ware_names = [''1_1'' \<mapsto> Some ''{1,2} (x)'', ''1_2'' \<mapsto> Some ''Hello'']"

text \<open>The seven cells of the sample ware, whose prices run from 10 to 22.\<close>

definition sample_cells :: "string \<Rightarrow> string \<Rightarrow> string list option" where
  "sample_cells min_price max_price = Some [''16'', ''14'', ''18'', ''13'', ''19'', ''12'', ''20'']"

section \<open>Properties of the resolver\<close>

text \<open>
  \<open>frame st st'\<close>: the map and the resolution path of \<open>st'\<close> are those of \<open>st\<close>; only
  the log may have grown.
\<close>

definition frame :: "rstate \<Rightarrow> rstate \<Rightarrow> bool" where
  "frame st st' = (name_map st' = name_map st \<and> processed_keys st' = processed_keys st)"

text \<open>
  \<open>log_within n st st'\<close>: the log of \<open>st'\<close> is the log of \<open>st\<close> and further events, none
  of them the report of a pass with a number above \<open>n\<close>.
\<close>

fun event_within :: "nat \<Rightarrow> event \<Rightarrow> bool" where
  "event_within n (Depth k a b) = (k \<le> n)"
| "event_within n (Circular k) = True"
| "event_within n (Missing k) = True"
| "event_within n (MaxDepth t) = True"

definition log_within :: "nat \<Rightarrow> rstate \<Rightarrow> rstate \<Rightarrow> bool" where
  "log_within n st st' = (\<exists>new. log st' = log st @ new \<and> list_all (event_within n) new)"

lemma pattern_sub_no_token: "\<not> has_token s \<Longrightarrow> pattern_sub repl s st = (s, st)"
  by (induction s) (auto split: option.splits)




lemma frame_refl: "frame st st" by (simp add: frame_def)
lemma frame_emit: "frame st (emit e st)" by (simp add: frame_def emit_def)
lemma frame_trans: "frame a b \<Longrightarrow> frame b c \<Longrightarrow> frame a c" by (simp add: frame_def)

lemma replacer_frame:
  assumes "\<And>t s. frame s (snd (nested t s))"
  shows "frame st (snd (replacer nested m st))"
proof (cases m)
  case (Pair page_id t_id)
  define key where "key = page_id @ ''_'' @ t_id"
  define st1 where "st1 = st\<lparr>processed_keys := processed_keys st @ [key]\<rparr>"
  define v where "v = (case name_map st1 key of Some v \<Rightarrow> v | None \<Rightarrow> ''Unknown'')"
  obtain r st2 where n: "nested v st1 = (r, st2)" by (cases "nested v st1") auto
  have "frame st1 (snd (nested v st1))" by (rule assms)
  then have "frame st1 st2" using n by simp
  then have "frame st (st2\<lparr>processed_keys := butlast (processed_keys st2)\<rparr>)"
    by (simp add: frame_def st1_def)
  moreover have "frame st ((emit (Missing key) st1)\<lparr>processed_keys := butlast (processed_keys (emit (Missing key) st1))\<rparr>)"
    by (simp add: frame_def st1_def emit_def)
  ultimately show ?thesis
    unfolding replacer_def Pair prod.case Let_def
    unfolding key_def [symmetric] st1_def [symmetric]
    unfolding v_def [symmetric]
    by (simp add: frame_emit n)
qed

lemma pattern_sub_frame:
  assumes "\<And>m s. frame s (snd (repl m s))"
  shows "frame st (snd (pattern_sub repl tx st))"
  using assms
proof (induction repl tx st rule: pattern_sub.induct)
  case (1 repl st)
  then show ?case by (simp add: frame_refl)
next
  case (2 repl c cs st)
  show ?case
  proof (cases "match_token (c # cs)")
    case None
    have "frame st (snd (pattern_sub repl cs st))" by (rule 2(1) [OF None 2(3)])
    then show ?thesis using None by (cases "pattern_sub repl cs st") simp
  next
    case (Some x)
    obtain page_id t_id rest where x: "x = (page_id, t_id, rest)" by (cases x) auto
    obtain r st1 where r: "repl (page_id, t_id) st = (r, st1)"
      by (cases "repl (page_id, t_id) st") auto
    have f1: "frame st st1" using 2(3) [of st "(page_id, t_id)"] r by simp
    have f2: "frame st1 (snd (pattern_sub repl rest st1))"
      by (rule 2(2) [OF Some x [symmetric] refl r [symmetric] 2(3)])
    show ?thesis using Some x r frame_trans [OF f1 f2]
      by (cases "pattern_sub repl rest st1") simp
  qed
qed

lemma for_loop_frame:
  assumes "\<And>t s. frame s (snd (pass t s))"
  shows "frame st (snd (for_loop n depth pass text cur st))"
proof (induction n arbitrary: depth cur st)
  case 0
  show ?case by (simp add: frame_emit)
next
  case (Suc n)
  obtain new st1 where p: "pass cur st = (new, st1)" by (cases "pass cur st") auto
  have f1: "frame st st1" using assms [of st cur] p by simp
  have f2: "frame st1 (emit (Depth (Suc depth) cur new) st1)" by (rule frame_emit)
  have f3: "frame (emit (Depth (Suc depth) cur new) st1)
              (snd (for_loop n (Suc depth) pass text new (emit (Depth (Suc depth) cur new) st1)))"
    by (rule Suc.IH)
  show ?case using p f1 frame_trans [OF f1 frame_trans [OF f2 f3]] by simp
qed

lemma resolve_body_frame:
  assumes "\<And>t s. frame s (snd (nested t s))"
  shows "frame st (snd (resolve_body nested max_depth text st))"
proof -
  have "frame s (snd (pattern_sub (replacer nested) t s))" for t s
    by (rule pattern_sub_frame) (rule replacer_frame, rule assms)
  then have "frame st (snd (for_loop max_depth 0 (pattern_sub (replacer nested)) text text st))"
    by (rule for_loop_frame)
  then show ?thesis
    by (cases "for_loop max_depth 0 (pattern_sub (replacer nested)) text text st")
       (simp add: resolve_body_def)
qed

lemma resolve_placeholders_frame: "frame st (snd (resolve_placeholders tx st max_depth))"
proof (induction max_depth arbitrary: tx st)
  case 0
  show ?case by (simp add: resolve_body_frame frame_refl)
next
  case (Suc d)
  show ?case by (simp add: resolve_body_frame Suc.IH)
qed


lemma within_refl: "log_within n st st" by (simp add: log_within_def)

lemma within_trans: "log_within n a b \<Longrightarrow> log_within n b c \<Longrightarrow> log_within n a c"
  by (auto simp: log_within_def)

lemma within_emit: "event_within n e \<Longrightarrow> log_within n st (emit e st)"
  by (simp add: log_within_def emit_def)

lemma within_mono: "n \<le> n' \<Longrightarrow> log_within n a b \<Longrightarrow> log_within n' a b"
proof -
  assume le: "n \<le> n'"
  have "event_within n e \<Longrightarrow> event_within n' e" for e using le by (cases e) simp_all
  then have "list_all (event_within n) new \<Longrightarrow> list_all (event_within n') new" for new
    by (induction new) simp_all
  moreover assume "log_within n a b"
  ultimately show ?thesis by (auto simp: log_within_def)
qed

lemma within_keys: "log st' = log st \<Longrightarrow> log_within n st' b \<Longrightarrow> log_within n st (b\<lparr>processed_keys := ks\<rparr>)"
  by (simp add: log_within_def)

lemma replacer_within:
  assumes "\<And>t s. log_within n s (snd (nested t s))"
  shows "log_within n st (snd (replacer nested m st))"
proof (cases m)
  case (Pair page_id t_id)
  define key where "key = page_id @ ''_'' @ t_id"
  define st1 where "st1 = st\<lparr>processed_keys := processed_keys st @ [key]\<rparr>"
  define v where "v = (case name_map st1 key of Some v \<Rightarrow> v | None \<Rightarrow> ''Unknown'')"
  obtain r st2 where nd: "nested v st1 = (r, st2)" by (cases "nested v st1") auto
  have l1: "log st1 = log st" by (simp add: st1_def)
  have "log_within n st1 (snd (nested v st1))" by (rule assms)
  then have "log_within n st1 st2" using nd by simp
  then have a: "log_within n st (st2\<lparr>processed_keys := butlast (processed_keys st2)\<rparr>)"
    using l1 by (rule within_keys [rotated])
  have "log_within n st1 (emit (Missing key) st1)" by (rule within_emit) simp
  then have b: "log_within n st ((emit (Missing key) st1)\<lparr>processed_keys := butlast (processed_keys (emit (Missing key) st1))\<rparr>)"
    using l1 by (rule within_keys [rotated])
  have c: "log_within n st (emit (Circular key) st)" by (rule within_emit) simp
  from a b c show ?thesis
    unfolding replacer_def Pair prod.case Let_def
    unfolding key_def [symmetric] st1_def [symmetric]
    unfolding v_def [symmetric]
    by (simp add: nd)
qed

lemma pattern_sub_within:
  assumes "\<And>m s. log_within n s (snd (repl m s))"
  shows "log_within n st (snd (pattern_sub repl tx st))"
  using assms
proof (induction repl tx st rule: pattern_sub.induct)
  case (1 repl st)
  then show ?case by (simp add: within_refl)
next
  case (2 repl c cs st)
  show ?case
  proof (cases "match_token (c # cs)")
    case None
    have "log_within n st (snd (pattern_sub repl cs st))" by (rule 2(1) [OF None 2(3)])
    then show ?thesis using None by (cases "pattern_sub repl cs st") simp
  next
    case (Some x)
    obtain page_id t_id rest where x: "x = (page_id, t_id, rest)" by (cases x) auto
    obtain r st1 where r: "repl (page_id, t_id) st = (r, st1)"
      by (cases "repl (page_id, t_id) st") auto
    have f1: "log_within n st st1" using 2(3) [of st "(page_id, t_id)"] r by simp
    have f2: "log_within n st1 (snd (pattern_sub repl rest st1))"
      by (rule 2(2) [OF Some x [symmetric] refl r [symmetric] 2(3)])
    show ?thesis using Some x r within_trans [OF f1 f2]
      by (cases "pattern_sub repl rest st1") simp
  qed
qed

lemma for_loop_within:
  assumes "\<And>t s. log_within n s (snd (pass t s))"
  shows "depth + k \<le> n \<Longrightarrow> log_within n st (snd (for_loop k depth pass tx cur st))"
proof (induction k arbitrary: depth cur st)
  case 0
  show ?case by (simp add: within_emit)
next
  case (Suc k)
  obtain new st1 where p: "pass cur st = (new, st1)" by (cases "pass cur st") auto
  have f1: "log_within n st st1" using assms [of st cur] p by simp
  have "event_within n (Depth (Suc depth) cur new)" using Suc.prems by simp
  then have f2: "log_within n st1 (emit (Depth (Suc depth) cur new) st1)" by (rule within_emit)
  have f3: "log_within n (emit (Depth (Suc depth) cur new) st1)
              (snd (for_loop k (Suc depth) pass tx new (emit (Depth (Suc depth) cur new) st1)))"
    using Suc.prems by (intro Suc.IH) simp
  show ?case using p f1 within_trans [OF f1 within_trans [OF f2 f3]] by simp
qed

lemma resolve_body_within:
  assumes "\<And>t s. log_within n s (snd (nested t s))" "max_depth \<le> n"
  shows "log_within n st (snd (resolve_body nested max_depth tx st))"
proof -
  have "log_within n s (snd (pattern_sub (replacer nested) t s))" for t s
    by (rule pattern_sub_within) (rule replacer_within, rule assms)
  then have "log_within n st (snd (for_loop max_depth 0 (pattern_sub (replacer nested)) tx tx st))"
    using assms(2) by (intro for_loop_within) simp_all
  then show ?thesis
    by (cases "for_loop max_depth 0 (pattern_sub (replacer nested)) tx tx st")
       (simp add: resolve_body_def)
qed

lemma resolve_placeholders_within:
  "log_within max_depth st (snd (resolve_placeholders tx st max_depth))"
proof (induction max_depth arbitrary: tx st)
  case 0
  show ?case by (simp add: resolve_body_within within_refl)
next
  case (Suc d)
  have "log_within (Suc d) s (snd (resolve_placeholders t s d))" for t s
    using Suc.IH [of s t] by (rule within_mono [rotated]) simp
  then show ?case by (simp add: resolve_body_within)
qed

lemma resolve_run_passes:
  assumes "Depth k a b \<in> set (log (snd (resolve_run tx m)))"
  shows "k \<le> 10"
proof -
  have "log_within 10 (initial m) (snd (resolve_run tx m))"
    unfolding resolve_run_def by (rule resolve_placeholders_within)
  then have "list_all (event_within 10) (log (snd (resolve_run tx m)))"
    by (simp add: log_within_def initial_def)
  then have "\<forall>e\<in>set (log (snd (resolve_run tx m))). event_within 10 e"
    by (simp add: list_all_iff)
  with assms have "event_within 10 (Depth k a b)" by blast
  then show ?thesis by simp
qed

lemma pattern_sub_single:
  assumes "match_token (c # cs) = Some (p, t, [])"
  shows "pattern_sub repl (c # cs) st = repl (p, t) st"
  using assms by (cases "repl (p, t) st") simp



lemma eval_match_11: "match_token ''{1,1}'' = Some (''1'', ''1'', [])"
  by code_simp


lemma eval_match_99: "match_token ''{9,9}'' = Some (''9'', ''9'', [])"
  by code_simp

lemma eval_sub_11: "pattern_sub repl ''{1,1}'' st = repl (''1'', ''1'') st"
  using eval_match_11 by (rule pattern_sub_single)


lemma eval_sub_99: "pattern_sub repl ''{9,9}'' st = repl (''9'', ''9'') st"
  using eval_match_99 by (rule pattern_sub_single)

lemma eval_strip_11: "strip_parentheticals ''{1,1}'' = ''{1,1}''"
  by code_simp


lemma eval_strip_unknown: "strip_parentheticals ''Unknown'' = ''Unknown''"
  by code_simp


lemma eval_no_token_unknown: "\<not> has_token ''Unknown''"
  by code_simp


lemma eval_sub_unknown: "pattern_sub repl ''Unknown'' st = (''Unknown'', st)"
  using eval_no_token_unknown by (rule pattern_sub_no_token)



text \<open>
  C2. With \<open>1_1\<close> bound to \<open>{1,1}\<close>, resolving \<open>{1,1}\<close> returns (the function is total) the
  literal token. The log of the call is the one warning of the cycle: no pass changed the
  text, at either level the loop left by \<open>break\<close> after its first pass, and the bound of
  10 passes was not reached. For every text and map, no pass with a number above 10 is
  ever reported. In general a token whose key is on the resolution path is replaced by its
  own text, whatever the nested call would do, and only the log changes.
\<close>

theorem resolve_self_cycle:
  "(m ''1_1'' = Some ''{1,1}'' \<longrightarrow>
      resolve ''{1,1}'' m = ''{1,1}'' \<and>
      resolve_run ''{1,1}'' m = (''{1,1}'', (initial m)\<lparr>log := [Circular ''1_1'']\<rparr>)) \<and>
   (\<forall>k a b. Depth k a b \<in> set (log (snd (resolve_run tx m))) \<longrightarrow> k \<le> 10) \<and>
   (page_id @ ''_'' @ t_id \<in> set (processed_keys st) \<longrightarrow>
      replacer nested (page_id, t_id) st =
        (group0 page_id t_id, emit (Circular (page_id @ ''_'' @ t_id)) st))"
proof -
  have a: "resolve_run ''{1,1}'' m = (''{1,1}'', (initial m)\<lparr>log := [Circular ''1_1'']\<rparr>)"
    if "m ''1_1'' = Some ''{1,1}''"
    using that unfolding resolve_run_def initial_def
    by (simp add: eval_nat_numeral resolve_body_def replacer_def emit_def group0_def Let_def
        eval_sub_11 eval_strip_11 del: pattern_sub.simps)
  have b: "replacer nested (page_id, t_id) st =
        (group0 page_id t_id, emit (Circular (page_id @ ''_'' @ t_id)) st)"
    if "page_id @ ''_'' @ t_id \<in> set (processed_keys st)"
    using that by (simp add: replacer_def)
  have c: "\<forall>k a b. Depth k a b \<in> set (log (snd (resolve_run tx m))) \<longrightarrow> k \<le> 10"
    using resolve_run_passes by blast
  from a b c show ?thesis by (simp add: resolve_def)
qed

theorem resolve_self_cycle_witness:
  "[''1_1'' \<mapsto> ''{1,1}''] ''1_1'' = Some ''{1,1}'' \<and>
   resolve ''{1,1}'' [''1_1'' \<mapsto> ''{1,1}''] = ''{1,1}'' \<and>
   ''7'' @ ''_'' @ ''8'' \<in> set (processed_keys \<lparr>name_map = Map.empty, processed_keys = [''7_8''], log = []\<rparr>) \<and>
   fst (replacer (\<lambda>t s. (''x'', s)) (''7'', ''8'')
          \<lparr>name_map = Map.empty, processed_keys = [''7_8''], log = []\<rparr>) = ''{7,8}''"
  using resolve_self_cycle [where m = "[''1_1'' \<mapsto> ''{1,1}'']" and page_id = "''7''"
      and t_id = "''8''" and nested = "\<lambda>t s. (''x'', s)"
      and st = "\<lparr>name_map = Map.empty, processed_keys = [''7_8''], log = []\<rparr>"]
  by (simp add: group0_def)



text \<open>
  C4. A token whose key is absent from the map (and not on the path) is replaced by the
  word \<open>Unknown\<close>: the nested call is not made, the key is pushed and popped again, and one
  warning is logged. In particular \<open>{9,9}\<close> resolves to \<open>Unknown\<close> when \<open>9_9\<close> is absent.
  An absent key is never on the path of a call that an extractor makes: the path is empty
  at first, and a nested call is made only with a key on top that is bound in the map.
\<close>

theorem resolve_missing_key:
  "(m ''9_9'' = None \<longrightarrow> resolve ''{9,9}'' m = ''Unknown'') \<and>
   (page_id @ ''_'' @ t_id \<notin> set (processed_keys st) \<and>
    name_map st (page_id @ ''_'' @ t_id) = None \<longrightarrow>
      replacer nested (page_id, t_id) st =
        (''Unknown'', emit (Missing (page_id @ ''_'' @ t_id)) st)) \<and>
   ((\<forall>k\<in>set (processed_keys st). name_map st k \<noteq> None) \<and>
    name_map st (page_id @ ''_'' @ t_id) = None \<longrightarrow>
      replacer nested (page_id, t_id) st =
        (''Unknown'', emit (Missing (page_id @ ''_'' @ t_id)) st)) \<and>
   (\<forall>k\<in>set (processed_keys (initial m)). name_map (initial m) k \<noteq> None) \<and>
   ((\<forall>k\<in>set (processed_keys st). name_map st k \<noteq> None) \<and> name_map st key = Some v \<longrightarrow>
      (\<forall>k\<in>set (processed_keys (st\<lparr>processed_keys := processed_keys st @ [key]\<rparr>)).
         name_map (st\<lparr>processed_keys := processed_keys st @ [key]\<rparr>) k \<noteq> None))"
proof -
  have a: "resolve ''{9,9}'' m = ''Unknown''" if "m ''9_9'' = None"
    using that unfolding resolve_def resolve_run_def initial_def
    by (simp add: eval_nat_numeral resolve_body_def replacer_def emit_def group0_def Let_def
        eval_sub_99 eval_sub_unknown eval_strip_unknown del: pattern_sub.simps)
  have b: "replacer nested (page_id, t_id) st =
        (''Unknown'', emit (Missing (page_id @ ''_'' @ t_id)) st)"
    if "page_id @ ''_'' @ t_id \<notin> set (processed_keys st)"
       "name_map st (page_id @ ''_'' @ t_id) = None"
    using that by (simp add: replacer_def Let_def emit_def)
  have c: "page_id @ ''_'' @ t_id \<notin> set (processed_keys st)"
    if "\<forall>k\<in>set (processed_keys st). name_map st k \<noteq> None"
       "name_map st (page_id @ ''_'' @ t_id) = None"
    using that by blast
  have d: "\<forall>k\<in>set (processed_keys (initial m)). name_map (initial m) k \<noteq> None"
    by (simp add: initial_def)
  have e: "\<forall>k\<in>set (processed_keys (st\<lparr>processed_keys := processed_keys st @ [key]\<rparr>)).
         name_map (st\<lparr>processed_keys := processed_keys st @ [key]\<rparr>) k \<noteq> None"
    if "\<forall>k\<in>set (processed_keys st). name_map st k \<noteq> None" "name_map st key = Some v"
    using that by auto
  from a b c d e show ?thesis by blast
qed

theorem resolve_missing_key_witness:
  "Map.empty ''9_9'' = (None :: string option) \<and> resolve ''{9,9}'' Map.empty = ''Unknown'' \<and>
   ''9'' @ ''_'' @ ''9'' \<notin> set (processed_keys (initial Map.empty)) \<and>
   name_map (initial Map.empty) (''9'' @ ''_'' @ ''9'') = None \<and>
   fst (replacer (\<lambda>t s. (''x'', s)) (''9'', ''9'') (initial Map.empty)) = ''Unknown''"
  using resolve_missing_key [where m = Map.empty and page_id = "''9''" and t_id = "''9''"
      and st = "initial Map.empty" and nested = "\<lambda>t s. (''x'', s)"]
  by (simp add: initial_def)

text \<open>
  C9. A call of the resolver returns with the localization map it was given: at every
  depth, from every state, and so for the call an extractor makes. The resolution path
  comes back unchanged too.
\<close>

theorem resolve_leaves_map:
  "name_map (snd (resolve_placeholders tx st max_depth)) = name_map st \<and>
   processed_keys (snd (resolve_placeholders tx st max_depth)) = processed_keys st \<and>
   name_map (snd (resolve_run tx m)) = m"
proof -
  have "frame st (snd (resolve_placeholders tx st max_depth))"
    by (rule resolve_placeholders_frame)
  moreover have "frame (initial m) (snd (resolve_run tx m))"
    unfolding resolve_run_def by (rule resolve_placeholders_frame)
  ultimately show ?thesis by (simp add: frame_def initial_def)
qed

section \<open>Properties of the map-sector extractor\<close>

lemma sorted_rows_sorted: "sorted (map sort_key_of (sorted_rows fs nmap pats))"
  by (simp add: sorted_rows_def)

lemma sorted_rows_mset: "mset (sorted_rows fs nmap pats) = mset (all_rows fs nmap pats)"
  by (simp add: sorted_rows_def)

lemma sorted_rows_stable:
  "filter (\<lambda>r. sort_key_of r = k) (sorted_rows fs nmap pats) =
   filter (\<lambda>r. sort_key_of r = k) (all_rows fs nmap pats)"
  by (simp add: sorted_rows_def sort_key_stable)

lemma sorted_rows_nth_mono:
  assumes "i \<le> j" "j < length (sorted_rows fs nmap pats)"
  shows "sort_key_of (sorted_rows fs nmap pats ! i) \<le> sort_key_of (sorted_rows fs nmap pats ! j)"
proof -
  have "map sort_key_of (sorted_rows fs nmap pats) ! i \<le> map sort_key_of (sorted_rows fs nmap pats) ! j"
    using sorted_rows_sorted assms by (intro sorted_nth_mono) simp_all
  then show ?thesis using assms by simp
qed

lemma rows_consecutive:
  assumes "Suc i < length (sorted_rows fs nmap pats)"
  shows "fst (sorted_rows fs nmap pats ! i) < fst (sorted_rows fs nmap pats ! Suc i) \<or>
         (fst (sorted_rows fs nmap pats ! i) = fst (sorted_rows fs nmap pats ! Suc i) \<and>
          fst (snd (sorted_rows fs nmap pats ! i)) \<le> fst (snd (sorted_rows fs nmap pats ! Suc i)))"
  using sorted_rows_nth_mono [of i "Suc i" fs nmap pats] assms
  by (auto simp: sort_key_of_def less_eq_prod_def)











lemma eval_sample_rows:
  "sorted_rows [(''original'', Some sample_mapdefaults)] sample_names DEFAULT_EXCLUDE_PATTERNS =
     [(0, 0, ''unknown'', ''abc'', ''Unknown'', ''original''),
      (1, 2, ''sector'', ''Cluster_01_Sector002_macro'', ''Hello'', ''original''),
      (2, 0, ''cluster'', ''Cluster_02_macro'', ''Hello'', ''original'')]"
  by code_simp


text \<open>
  C8. The file written by the map-sector extractor is the header and one line per row of
  \<open>all_rows\<close> after the sort, in that order; the sort keeps the rows (as a multiset), and
  of two consecutive rows the first has the smaller or equal pair (cluster id, sector id),
  compared first by cluster id, then by sector id.
\<close>

theorem mapdefaults_rows_sorted:
  "process_mapdefaults fs nmap pats True =
     Some ([''macro'', ''name'', ''source'', ''type''] # map csv_line (sorted_rows fs nmap pats)) \<and>
   mset (sorted_rows fs nmap pats) = mset (all_rows fs nmap pats) \<and>
   (\<forall>i. Suc i < length (sorted_rows fs nmap pats) \<longrightarrow>
      fst (sorted_rows fs nmap pats ! i) < fst (sorted_rows fs nmap pats ! Suc i) \<or>
      (fst (sorted_rows fs nmap pats ! i) = fst (sorted_rows fs nmap pats ! Suc i) \<and>
       fst (snd (sorted_rows fs nmap pats ! i)) \<le> fst (snd (sorted_rows fs nmap pats ! Suc i))))"
  using rows_consecutive [of _ fs nmap pats]
  by (simp add: process_mapdefaults_def sorted_rows_mset)

theorem mapdefaults_rows_sorted_witness:
  "Suc 0 < length (sorted_rows [(''original'', Some sample_mapdefaults)] sample_names
                     DEFAULT_EXCLUDE_PATTERNS) \<and>
   fst (sorted_rows [(''original'', Some sample_mapdefaults)] sample_names
          DEFAULT_EXCLUDE_PATTERNS ! 0)
   < fst (sorted_rows [(''original'', Some sample_mapdefaults)] sample_names
            DEFAULT_EXCLUDE_PATTERNS ! Suc 0)"
  using mapdefaults_rows_sorted [of "[(''original'', Some sample_mapdefaults)]" sample_names
      DEFAULT_EXCLUDE_PATTERNS]
  by (simp add: eval_sample_rows)





section \<open>Properties of the loaders\<close>

lemma load_entries_eq:
  "load_entries payload page_id m ts =
     m ++ map_of (rev (concat (map (t_entry payload page_id) ts)))"
proof (induction ts arbitrary: m)
  case Nil
  show ?case by (simp add: load_entries_def)
next
  case (Cons t ts)
  have step: "load_entries payload page_id m (t # ts) =
      load_entries payload page_id (m ++ map_of (rev (t_entry payload page_id t))) ts"
    by (simp add: load_entries_def t_entry_def split: option.splits)
  show ?case unfolding step Cons.IH by (simp add: map_add_assoc)
qed

lemma page_entries_eq:
  "page_entries payload page =
     (case get_attr page ''id'' of None \<Rightarrow> []
      | Some page_id \<Rightarrow> if page_id = [] then []
          else concat (map (t_entry payload page_id) (findall_desc ''t'' page)))"
  unfolding page_entries_def by (rule refl)

lemma load_pages_eq:
  "load_pages payload m pages = m ++ map_of (rev (concat (map (page_entries payload) pages)))"
proof (induction pages arbitrary: m)
  case Nil
  show ?case by (simp add: load_pages_def)
next
  case (Cons p ps)
  have step: "load_pages payload m (p # ps) =
      load_pages payload (m ++ map_of (rev (page_entries payload p))) ps"
    by (simp add: load_pages_def page_entries_eq load_entries_eq split: option.splits)
  show ?case unfolding step Cons.IH by (simp add: map_add_assoc)
qed

lemma load_localization_with_eq:
  "load_localization_with payload (Some root) = map_of (rev (entries payload root))"
  by (simp add: load_localization_with_def load_pages_eq entries_def)

lemma entries_member:
  assumes "page \<in> set (findall_desc ''page'' root)" "get_attr page ''id'' = Some page_id"
    "page_id \<noteq> []" "t \<in> set (findall_desc ''t'' page)" "get_attr t ''id'' = Some t_id"
    "t_id \<noteq> []"
  shows "(page_id @ ''_'' @ t_id, payload (el_text t)) \<in> set (entries payload root)"
proof -
  have "(page_id @ ''_'' @ t_id, payload (el_text t)) \<in> set (t_entry payload page_id t)"
    using assms(5,6) by (simp add: t_entry_def)
  then have "(page_id @ ''_'' @ t_id, payload (el_text t)) \<in> set (page_entries payload page)"
    using assms(2,3,4) by (auto simp: page_entries_eq)
  then show ?thesis using assms(1) by (auto simp: entries_def)
qed

lemma entries_only:
  assumes "(k, v) \<in> set (entries payload root)"
  shows "\<exists>page page_id t t_id. page \<in> set (findall_desc ''page'' root) \<and>
     get_attr page ''id'' = Some page_id \<and> page_id \<noteq> [] \<and> t \<in> set (findall_desc ''t'' page) \<and>
     get_attr t ''id'' = Some t_id \<and> t_id \<noteq> [] \<and> k = page_id @ ''_'' @ t_id \<and>
     v = payload (el_text t)"
proof -
  from assms obtain page where p: "page \<in> set (findall_desc ''page'' root)"
    and kv: "(k, v) \<in> set (page_entries payload page)"
    by (auto simp: entries_def)
  from kv obtain page_id where pid: "get_attr page ''id'' = Some page_id"
    by (cases "get_attr page ''id''") (simp_all add: page_entries_eq)
  from kv pid have pid2: "page_id \<noteq> []"
    by (cases "page_id = []") (simp_all add: page_entries_eq)
  from kv pid pid2
  have kv2: "(k, v) \<in> set (concat (map (t_entry payload page_id) (findall_desc ''t'' page)))"
    by (simp add: page_entries_eq)
  from kv2 obtain t where t: "t \<in> set (findall_desc ''t'' page)"
    and kv3: "(k, v) \<in> set (t_entry payload page_id t)"
    by auto
  from kv3 obtain t_id where tid: "get_attr t ''id'' = Some t_id"
    by (cases "get_attr t ''id''") (simp_all add: t_entry_def)
  from kv3 tid have tid2: "t_id \<noteq> []"
    by (cases "t_id = []") (simp_all add: t_entry_def)
  from kv3 tid tid2 have "k = page_id @ ''_'' @ t_id" "v = payload (el_text t)"
    by (simp_all add: t_entry_def)
  with p pid pid2 t tid tid2 show ?thesis by blast
qed

lemma load_bound_dom:
  assumes "(k, v) \<in> set (entries payload root)"
  shows "\<exists>v'. load_localization_with payload (Some root) k = Some v' \<and> (k, v') \<in> set (entries payload root)"
proof -
  from assms have "(k, v) \<in> set (rev (entries payload root))" by simp
  then have "\<exists>v'. map_of (rev (entries payload root)) k = Some v'" by (rule weak_map_of_SomeI)
  then obtain v' where "map_of (rev (entries payload root)) k = Some v'" by blast
  moreover from this have "(k, v') \<in> set (entries payload root)" by (auto dest: map_of_SomeD)
  ultimately show ?thesis by (simp add: load_localization_with_eq)
qed

lemma load_bound_distinct:
  assumes "(k, v) \<in> set (entries payload root)" "distinct (map fst (entries payload root))"
  shows "load_localization_with payload (Some root) k = Some v"
proof -
  have "distinct (map fst (rev (entries payload root)))" using assms(2) by (simp add: rev_map [symmetric])
  then show ?thesis using assms(1) by (simp add: load_localization_with_eq)
qed

lemma load_bound_only:
  assumes "load_localization_with payload (Some root) k = Some v"
  shows "(k, v) \<in> set (entries payload root)"
  using assms by (auto simp: load_localization_with_eq dest: map_of_SomeD)


lemma entries_keys: "map fst (entries payload root) = map fst (entries payload' root)"
proof -
  have t: "map fst (t_entry payload page_id t) = map fst (t_entry payload' page_id t)"
    for page_id t
    by (simp add: t_entry_def split: option.splits)
  have t': "map fst \<circ> t_entry payload page_id = map fst \<circ> t_entry payload' page_id"
    for page_id
    by (rule ext) (simp add: t)
  have "map fst (page_entries payload page) = map fst (page_entries payload' page)" for page
    by (simp add: page_entries_def map_concat t' split: option.splits)
  then have "map fst \<circ> page_entries payload = map fst \<circ> page_entries payload'"
    by (intro ext) simp
  then show ?thesis by (simp add: entries_def map_concat)
qed

lemma eval_sample_language:
  "Element ''page'' [(''id'', ''1'')] None
     [Element ''t'' [(''id'', ''1'')] None [], Element ''t'' [(''id'', ''2'')] (Some ''Hello'') []]
     \<in> set (findall_desc ''page'' sample_language) \<and>
   Element ''t'' [(''id'', ''1'')] None []
     \<in> set (findall_desc ''t'' (Element ''page'' [(''id'', ''1'')] None
          [Element ''t'' [(''id'', ''1'')] None [], Element ''t'' [(''id'', ''2'')] (Some ''Hello'') []])) \<and>
   get_attr (Element ''page'' [(''id'', ''1'')] None
     [Element ''t'' [(''id'', ''1'')] None [], Element ''t'' [(''id'', ''2'')] (Some ''Hello'') []]) ''id''
     = Some ''1'' \<and>
   get_attr (Element ''t'' [(''id'', ''1'')] None []) ''id'' = Some ''1'' \<and>
   distinct (map fst (entries text_or_empty sample_language))"
  by code_simp

text \<open>
  C6, as the code has it. The dictionary a loader returns is the sequence of the bindings
  of key \<open>page_id_t_id\<close>, one for every page with an identifier and every entry below it
  with an identifier, in document order, a later binding replacing an earlier one with
  the same key; nothing else is bound. The value bound is the entry's text; for an entry
  without text it is the empty string in \<open>get_factions_info.py\<close> and \<open>None\<close> in
  \<open>wares_convert.py\<close>.
\<close>

theorem load_localization_binds:
  "load_localization (Some root) = map_of (rev (entries text_or_empty root)) \<and>
   load_localization_wares (Some root) = map_of (rev (entries (\<lambda>x. x) root)) \<and>
   text_or_empty None = [] \<and>
   (page \<in> set (findall_desc ''page'' root) \<and> get_attr page ''id'' = Some page_id \<and>
    page_id \<noteq> [] \<and> t \<in> set (findall_desc ''t'' page) \<and> get_attr t ''id'' = Some t_id \<and>
    t_id \<noteq> [] \<longrightarrow>
      (\<exists>v. load_localization (Some root) (page_id @ ''_'' @ t_id) = Some v) \<and>
      (\<exists>v. load_localization_wares (Some root) (page_id @ ''_'' @ t_id) = Some v) \<and>
      (distinct (map fst (entries text_or_empty root)) \<longrightarrow>
         load_localization (Some root) (page_id @ ''_'' @ t_id) = Some (text_or_empty (el_text t)) \<and>
         load_localization_wares (Some root) (page_id @ ''_'' @ t_id) = Some (el_text t))) \<and>
   (load_localization (Some root) k = Some v \<longrightarrow>
      (\<exists>page page_id t t_id. page \<in> set (findall_desc ''page'' root) \<and>
         get_attr page ''id'' = Some page_id \<and> page_id \<noteq> [] \<and>
         t \<in> set (findall_desc ''t'' page) \<and> get_attr t ''id'' = Some t_id \<and> t_id \<noteq> [] \<and>
         k = page_id @ ''_'' @ t_id \<and> v = text_or_empty (el_text t))) \<and>
   (load_localization_wares (Some root) k = Some w \<longrightarrow>
      (\<exists>page page_id t t_id. page \<in> set (findall_desc ''page'' root) \<and>
         get_attr page ''id'' = Some page_id \<and> page_id \<noteq> [] \<and>
         t \<in> set (findall_desc ''t'' page) \<and> get_attr t ''id'' = Some t_id \<and> t_id \<noteq> [] \<and>
         k = page_id @ ''_'' @ t_id \<and> w = el_text t))"
proof -
  have a: "load_localization (Some root) = map_of (rev (entries text_or_empty root))"
    by (simp add: load_localization_def load_localization_with_eq)
  have b: "load_localization_wares (Some root) = map_of (rev (entries (\<lambda>x. x) root))"
    by (simp add: load_localization_wares_def load_localization_with_eq)
  have c: "text_or_empty None = []" by (simp add: text_or_empty_def)
  have d: "(\<exists>v. load_localization (Some root) (page_id @ ''_'' @ t_id) = Some v) \<and>
      (\<exists>v. load_localization_wares (Some root) (page_id @ ''_'' @ t_id) = Some v) \<and>
      (distinct (map fst (entries text_or_empty root)) \<longrightarrow>
         load_localization (Some root) (page_id @ ''_'' @ t_id) = Some (text_or_empty (el_text t)) \<and>
         load_localization_wares (Some root) (page_id @ ''_'' @ t_id) = Some (el_text t))"
    if h: "page \<in> set (findall_desc ''page'' root)" "get_attr page ''id'' = Some page_id"
      "page_id \<noteq> []" "t \<in> set (findall_desc ''t'' page)" "get_attr t ''id'' = Some t_id"
      "t_id \<noteq> []"
  proof -
    have m1: "(page_id @ ''_'' @ t_id, text_or_empty (el_text t)) \<in> set (entries text_or_empty root)"
      using h by (rule entries_member)
    have m2: "(page_id @ ''_'' @ t_id, el_text t) \<in> set (entries (\<lambda>x. x) root)"
      using h by (rule entries_member)
    have d2: "distinct (map fst (entries (\<lambda>x. x) root))"
      if "distinct (map fst (entries text_or_empty root))"
      using that entries_keys [of "\<lambda>x. x" root text_or_empty] by simp
    show ?thesis
      using load_bound_dom [OF m1] load_bound_dom [OF m2]
        load_bound_distinct [OF m1] load_bound_distinct [OF m2] d2
      unfolding load_localization_def load_localization_wares_def by blast
  qed
  have e: "\<exists>page page_id t t_id. page \<in> set (findall_desc ''page'' root) \<and>
         get_attr page ''id'' = Some page_id \<and> page_id \<noteq> [] \<and>
         t \<in> set (findall_desc ''t'' page) \<and> get_attr t ''id'' = Some t_id \<and> t_id \<noteq> [] \<and>
         k = page_id @ ''_'' @ t_id \<and> v = text_or_empty (el_text t)"
    if "load_localization (Some root) k = Some v"
    using that unfolding load_localization_def by (intro entries_only load_bound_only)
  have f: "\<exists>page page_id t t_id. page \<in> set (findall_desc ''page'' root) \<and>
         get_attr page ''id'' = Some page_id \<and> page_id \<noteq> [] \<and>
         t \<in> set (findall_desc ''t'' page) \<and> get_attr t ''id'' = Some t_id \<and> t_id \<noteq> [] \<and>
         k = page_id @ ''_'' @ t_id \<and> w = el_text t"
    if "load_localization_wares (Some root) k = Some w"
    using that unfolding load_localization_wares_def
    by (intro entries_only [where payload = "\<lambda>x. x"] load_bound_only)
  from a b c d e f show ?thesis by blast
qed

theorem load_localization_binds_witness:
  "load_localization (Some sample_language) (''1'' @ ''_'' @ ''1'') = Some [] \<and>
   load_localization_wares (Some sample_language) (''1'' @ ''_'' @ ''1'') = Some None"
proof -
  note e = eval_sample_language
  have ne: "''1'' \<noteq> []" by simp
  from load_localization_binds [of sample_language
      "Element ''page'' [(''id'', ''1'')] None
         [Element ''t'' [(''id'', ''1'')] None [], Element ''t'' [(''id'', ''2'')] (Some ''Hello'') []]"
      "''1''" "Element ''t'' [(''id'', ''1'')] None []" "''1''" "[]" "[]" None] e ne
  have "load_localization (Some sample_language) (''1'' @ ''_'' @ ''1'') =
          Some (text_or_empty (el_text (Element ''t'' [(''id'', ''1'')] None []))) \<and>
        load_localization_wares (Some sample_language) (''1'' @ ''_'' @ ''1'') =
          Some (el_text (Element ''t'' [(''id'', ''1'')] None []))"
    by blast
  then show ?thesis by (simp add: text_or_empty_def)
qed

text \<open>
  The loader of \<open>wares_convert.py\<close> binds an entry without text to \<open>None\<close>, not to the
  empty string.
\<close>

theorem wares_loader_binds_none:
  "load_localization_wares (Some sample_language) ''1_1'' = Some None \<and>
   load_localization_wares (Some sample_language) ''1_1'' \<noteq> Some (Some [])"
  by code_simp

section \<open>Properties of the ware extractor\<close>

lemma ware_step_name:
  assumes "ware_step nmap price_cells source ware = Emit r"
  shows "\<exists>name_ref. parse_name_reference (get_attr ware ''name'') = Some name_ref \<and>
     w_name r = (case nmap name_ref of Some v \<Rightarrow> v | None \<Rightarrow> Some ''Unknown'')"
  using assms
  by (auto simp: ware_step_def Let_def split: if_splits option.splits)

lemma ware_rows_from:
  assumes "r \<in> set (fst (ware_rows nmap price_cells source ws))"
  shows "\<exists>w\<in>set ws. ware_step nmap price_cells source w = Emit r"
  using assms
proof (induction ws)
  case Nil
  then show ?case by simp
next
  case (Cons w ws)
  show ?case
  proof (cases "ware_step nmap price_cells source w")
    case Skip
    then show ?thesis using Cons by auto
  next
    case Raise
    then show ?thesis using Cons.prems by simp
  next
    case (Emit x)
    then show ?thesis using Cons by (auto split: prod.splits)
  qed
qed

lemma wares_of_files_from:
  assumes "r \<in> set (fst (wares_of_files nmap price_cells fs))"
  shows "\<exists>source root w. (source, Some root) \<in> set fs \<and> w \<in> set (findall_desc ''ware'' root) \<and>
     ware_step nmap price_cells source w = Emit r"
  using assms
proof (induction nmap price_cells fs rule: wares_of_files.induct)
  case (1 nmap price_cells)
  then show ?case by simp
next
  case (2 nmap price_cells source fs)
  then show ?case by simp
next
  case (3 nmap price_cells source root fs)
  obtain rows raised where wr: "ware_rows nmap price_cells source (findall_desc ''ware'' root) = (rows, raised)"
    by (cases "ware_rows nmap price_cells source (findall_desc ''ware'' root)") auto
  have here: "\<exists>w\<in>set (findall_desc ''ware'' root). ware_step nmap price_cells source w = Emit r"
    if "r \<in> set rows"
    using that wr ware_rows_from [of r nmap price_cells source "findall_desc ''ware'' root"] by simp
  show ?case
  proof (cases raised)
    case True
    then have "r \<in> set rows" using 3(2) wr by simp
    then show ?thesis using here by auto
  next
    case False
    obtain rows' raised' where rest: "wares_of_files nmap price_cells fs = (rows', raised')"
      by (cases "wares_of_files nmap price_cells fs") auto
    from 3(2) wr False rest have "r \<in> set rows \<or> r \<in> set rows'" by simp
    then show ?thesis
    proof
      assume "r \<in> set rows"
      then show ?thesis using here by auto
    next
      assume "r \<in> set rows'"
      then have "r \<in> set (fst (wares_of_files nmap price_cells fs))" using rest by simp
      from 3(1) [OF wr [symmetric] False this] show ?thesis by auto
    qed
  qed
qed


lemma eval_sample_wares:
  "process_all_wares [(''original'', Some sample_wares)] sample_ware_names sample_cells True =
     Some ([\<lparr>w_name = Some ''{1,2} (x)'', w_min = ''10'', w_max = ''22'', w_bands = [''16'', ''14'', ''18'', ''13'', ''19'', ''12'', ''20''],
              w_transport = ''container'', w_source = ''original''\<rparr>], False)"
  by code_simp

text \<open>
  C5, as the code has it. The name of every ware row written is the value the
  dictionary holds for the key parsed from the ware's name reference, as it is, or the
  word \<open>Unknown\<close> when the key is absent: the ware extractor does not call the resolver.
\<close>

theorem ware_name_is_lookup:
  "process_all_wares fs nmap price_cells ok = Some (rows, raised) \<and> r \<in> set rows \<longrightarrow>
     (\<exists>source root ware name_ref.
        (source, Some root) \<in> set fs \<and> ware \<in> set (findall_desc ''ware'' root) \<and>
        ware_step nmap price_cells source ware = Emit r \<and>
        parse_name_reference (get_attr ware ''name'') = Some name_ref \<and>
        w_name r = (case nmap name_ref of Some v \<Rightarrow> v | None \<Rightarrow> Some ''Unknown''))"
proof
  assume h: "process_all_wares fs nmap price_cells ok = Some (rows, raised) \<and> r \<in> set rows"
  then have "wares_of_files nmap price_cells fs = (rows, raised)"
    by (simp add: process_all_wares_def split: if_splits)
  with h have "r \<in> set (fst (wares_of_files nmap price_cells fs))" by simp
  then obtain source root ware where w: "(source, Some root) \<in> set fs"
    "ware \<in> set (findall_desc ''ware'' root)" "ware_step nmap price_cells source ware = Emit r"
    using wares_of_files_from by blast
  from ware_step_name [OF w(3)] w show "\<exists>source root ware name_ref.
        (source, Some root) \<in> set fs \<and> ware \<in> set (findall_desc ''ware'' root) \<and>
        ware_step nmap price_cells source ware = Emit r \<and>
        parse_name_reference (get_attr ware ''name'') = Some name_ref \<and>
        w_name r = (case nmap name_ref of Some v \<Rightarrow> v | None \<Rightarrow> Some ''Unknown'')"
    by blast
qed

theorem ware_name_is_lookup_witness:
  "process_all_wares [(''original'', Some sample_wares)] sample_ware_names sample_cells True =
     Some ([\<lparr>w_name = Some ''{1,2} (x)'', w_min = ''10'', w_max = ''22'', w_bands = [''16'', ''14'', ''18'', ''13'', ''19'', ''12'', ''20''],
              w_transport = ''container'', w_source = ''original''\<rparr>], False) \<and>
   (\<exists>source root ware name_ref.
        (source, Some root) \<in> set [(''original'', Some sample_wares)] \<and>
        ware \<in> set (findall_desc ''ware'' root) \<and>
        parse_name_reference (get_attr ware ''name'') = Some name_ref \<and>
        Some ''{1,2} (x)'' = (case sample_ware_names name_ref of Some v \<Rightarrow> v | None \<Rightarrow> Some ''Unknown''))"
  using ware_name_is_lookup [of "[(''original'', Some sample_wares)]" sample_ware_names sample_cells
      True "[\<lparr>w_name = Some ''{1,2} (x)'', w_min = ''10'', w_max = ''22'', w_bands = [''16'', ''14'', ''18'', ''13'', ''19'', ''12'', ''20''],
              w_transport = ''container'', w_source = ''original''\<rparr>]" False
      "\<lparr>w_name = Some ''{1,2} (x)'', w_min = ''10'', w_max = ''22'', w_bands = [''16'', ''14'', ''18'', ''13'', ''19'', ''12'', ''20''],
              w_transport = ''container'', w_source = ''original''\<rparr>"]
    eval_sample_wares
  by auto

text \<open>
  A ware whose name refers to a value with a further token and an annotation is written
  with that value as it is; the resolver gives \<open>Hello\<close> for the value and for the
  reference.
\<close>

theorem ware_name_not_resolved:
  "process_all_wares [(''original'', Some sample_wares)] sample_ware_names sample_cells True =
     Some ([\<lparr>w_name = Some ''{1,2} (x)'', w_min = ''10'', w_max = ''22'', w_bands = [''16'', ''14'', ''18'', ''13'', ''19'', ''12'', ''20''],
              w_transport = ''container'', w_source = ''original''\<rparr>], False) \<and>
   resolve ''{1,2} (x)'' sample_names = ''Hello'' \<and>
   resolve ''{1,1}'' sample_names = ''Hello''"
  by code_simp

end
